theory Spec2Isabelle
  imports Complex_Main
begin

section \<open>Scenario generator of the inflation dashboard (app.py)\<close>

text \<open>
  The script computes one synthetic series with numpy and pandas and derives three
  summary numbers and two display segments from it. The library calls the script makes
  (\<open>pd.date_range\<close>, \<open>np.linspace\<close>, \<open>np.random.normal\<close>, \<open>np.zeros\<close>, \<open>np.arange\<close>,
  \<open>iloc\<close>, \<open>max\<close>) are modelled after their documented behaviour, each in a definition of
  its own.

  The arithmetic is modelled twice. The first model computes in \<^typ>\<open>real\<close>, that is in
  exact arithmetic; it is used for the properties that do not depend on rounding. The
  second model, whose names end in \<open>_f64\<close>, rounds the result of every arithmetic
  operation to a binary64 number as the machine does, and is used where the last bits
  matter.
\<close>

subsection \<open>Exceptions\<close>

datatype error = ValueError string | IndexError

subsection \<open>Timestamps and the month-end calendar\<close>

record timestamp =
  year :: nat
  month :: nat
  day :: nat

definition ts_less :: "timestamp \<Rightarrow> timestamp \<Rightarrow> bool" where
  "ts_less a b =
     (year a < year b \<or>
      (year a = year b \<and> (month a < month b \<or> (month a = month b \<and> day a < day b))))"

definition ts_le :: "timestamp \<Rightarrow> timestamp \<Rightarrow> bool" where
  "ts_le a b = (ts_less a b \<or> a = b)"

definition is_leap_year :: "nat \<Rightarrow> bool" where
  "is_leap_year y = (y mod 4 = 0 \<and> (y mod 100 \<noteq> 0 \<or> y mod 400 = 0))"

definition days_in_month :: "nat \<Rightarrow> nat \<Rightarrow> nat" where
  "days_in_month y m =
     (if m = 2 then (if is_leap_year y then 29 else 28)
      else if m = 4 \<or> m = 6 \<or> m = 9 \<or> m = 11 then 30
      else 31)"

text \<open>Months are counted from January of year 0: month \<open>k\<close> is month \<open>k mod 12 + 1\<close> of
  year \<open>k div 12\<close>.\<close>

definition month_index :: "timestamp \<Rightarrow> nat" where
  "month_index t = 12 * year t + (month t - 1)"

definition month_end :: "nat \<Rightarrow> timestamp" where
  "month_end k =
     \<lparr>year = k div 12, month = k mod 12 + 1, day = days_in_month (k div 12) (k mod 12 + 1)\<rparr>"

text \<open>\<open>pd.date_range(start, end, freq="M")\<close>: the month-end timestamps \<open>d\<close> with
  \<open>start \<le> d \<le> end\<close>, in increasing order.\<close>

definition date_range_M :: "timestamp \<Rightarrow> timestamp \<Rightarrow> timestamp list" where
  "date_range_M start stop =
     filter (\<lambda>d. ts_le start d \<and> ts_le d stop)
       (map (\<lambda>j. month_end (month_index start + j))
          [0..<Suc (month_index stop) - month_index start])"

subsection \<open>The numpy operations the generator uses\<close>

text \<open>\<open>np.linspace(start, stop, num)\<close> with the default \<open>endpoint=True\<close>: the samples are
  \<open>arange(num) * step + start\<close> with \<open>step = (stop - start) / (num - 1)\<close> (computed as
  \<open>arange(num) / div * delta\<close> when the step is zero), and the last sample is then
  overwritten with \<open>stop\<close>.\<close>

definition linspace :: "real \<Rightarrow> real \<Rightarrow> nat \<Rightarrow> real list" where
  "linspace start stop num =
     (let dv = num - 1;
          delta = stop - start;
          y0 = map real [0..<num];
          y1 = (if dv > 0
                then (let step = delta / real dv
                      in if step = 0 then map (\<lambda>v. v / real dv * delta) y0
                         else map (\<lambda>v. v * step) y0)
                else map (\<lambda>v. v * delta) y0);
          y2 = map (\<lambda>v. v + start) y1
      in if num > 1 then y2[num - 1 := stop] else y2)"

definition np_zeros :: "nat \<Rightarrow> real list" where
  "np_zeros n = replicate n 0"

definition np_arange :: "nat \<Rightarrow> real list" where
  "np_arange n = map real [0..<n]"

text \<open>Elementwise sum of two arrays of the same shape.\<close>

definition np_add :: "real list \<Rightarrow> real list \<Rightarrow> real list" where
  "np_add xs ys = map2 (+) xs ys"

text \<open>\<open>a[k:] = b\<close> for \<open>b\<close> of the length of the slice: the first \<open>k\<close> entries stay, the
  rest are the entries of \<open>b\<close>.\<close>

definition assign_from :: "real list \<Rightarrow> nat \<Rightarrow> real list \<Rightarrow> real list" where
  "assign_from a k b = take k a @ b"

text \<open>The process-wide random source is the sequence of standard normal draws it will
  still hand out. \<open>np.random.normal(loc, scale, size)\<close> raises \<open>ValueError\<close> for a negative
  scale, before drawing anything; otherwise it consumes \<open>size\<close> draws \<open>z\<close> and returns
  \<open>loc + scale * z\<close> for each.\<close>

type_synonym rng = "nat \<Rightarrow> real"

definition random_normal :: "real \<Rightarrow> real \<Rightarrow> nat \<Rightarrow> rng \<Rightarrow> (error + real list) \<times> rng" where
  "random_normal loc scale num g =
     (if scale < 0 then (Inl (ValueError ''scale < 0''), g)
      else (Inr (map (\<lambda>k. loc + scale * g k) [0..<num]), (\<lambda>k. g (k + num))))"

subsection \<open>The data frame and the generator\<close>

record dataframe =
  Date :: "timestamp list"
  Inflation :: "real list"

definition shock_start :: nat where
  "shock_start = 48"

text \<open>The three deterministic components, each an array of \<open>n\<close> entries.\<close>

definition trend :: "real \<Rightarrow> nat \<Rightarrow> real list" where
  "trend base_inflation n = linspace 2.0 base_inflation n"

definition seasonality :: "nat \<Rightarrow> real list" where
  "seasonality n = map (\<lambda>x. sin x * 0.5) (linspace 0 (8 * pi) n)"

definition shock :: "real \<Rightarrow> nat \<Rightarrow> real list" where
  "shock shock_factor n =
     assign_from (np_zeros n) shock_start
       (map (\<lambda>k. shock_factor * exp (- 0.1 * k)) (np_arange (n - shock_start)))"

text \<open>The generator reads the random source and returns it advanced; a \<open>ValueError\<close> of
  the noise draw leaves the function before a frame is built.\<close>

definition generate_scenario_data ::
  "real \<Rightarrow> real \<Rightarrow> real \<Rightarrow> rng \<Rightarrow> (error + dataframe) \<times> rng" where
  "generate_scenario_data base_inflation shock_factor volatility g =
     (let dates = date_range_M \<lparr>year = 2020, month = 1, day = 1\<rparr>
                               \<lparr>year = 2026, month = 12, day = 31\<rparr>;
          n = length dates
      in case random_normal 0 volatility n g of
           (Inl e, g') \<Rightarrow> (Inl e, g')
         | (Inr noise, g') \<Rightarrow>
             (let vals = np_add (np_add (np_add (trend base_inflation n) (seasonality n)) noise)
                           (shock shock_factor n)
              in (Inr \<lparr>Date = dates, Inflation = vals\<rparr>, g')))"

subsection \<open>What the dashboard derives from the series\<close>

text \<open>\<open>s.iloc[k]\<close>: a negative position counts from the end, a position out of range
  raises \<open>IndexError\<close>.\<close>

definition iloc :: "real list \<Rightarrow> int \<Rightarrow> error + real" where
  "iloc xs k =
     (let n = int (length xs); j = (if k < 0 then n + k else k)
      in if 0 \<le> j \<and> j < n then Inr (xs ! nat j) else Inl IndexError)"

text \<open>\<open>s.max()\<close>: the largest entry; \<open>None\<close> stands for the NaN of an empty series.\<close>

definition series_max :: "real list \<Rightarrow> real option" where
  "series_max xs = (case xs of [] \<Rightarrow> None | x # rest \<Rightarrow> Some (fold max rest x))"

definition curr_val :: "dataframe \<Rightarrow> error + real" where
  "curr_val df = iloc (Inflation df) (- 1)"

definition peak_val :: "dataframe \<Rightarrow> real option" where
  "peak_val df = series_max (Inflation df)"

definition pre_shock_val :: "dataframe \<Rightarrow> error + real" where
  "pre_shock_val df = iloc (Inflation df) 47"

text \<open>\<open>df[mask]\<close>: the rows whose date satisfies the mask, in their order.\<close>

definition select_rows :: "(timestamp \<Rightarrow> bool) \<Rightarrow> dataframe \<Rightarrow> dataframe" where
  "select_rows p df =
     (let rows = filter (\<lambda>r. p (fst r)) (zip (Date df) (Inflation df))
      in \<lparr>Date = map fst rows, Inflation = map snd rows\<rparr>)"

definition horizon :: timestamp where
  "horizon = \<lparr>year = 2024, month = 1, day = 1\<rparr>"

definition history :: "dataframe \<Rightarrow> dataframe" where
  "history df = select_rows (\<lambda>d. ts_less d horizon) df"

definition forecast :: "dataframe \<Rightarrow> dataframe" where
  "forecast df = select_rows (\<lambda>d. ts_le horizon d) df"

subsection \<open>Double-precision arithmetic\<close>

text \<open>A binary64 number is an integer of at most 53 bits times a power of two.
  \<open>fl x\<close> is the binary64 number nearest to \<open>x\<close>, the one with the even integer when two
  are equally near: the result IEEE 754 prescribes for \<open>+\<close>, \<open>-\<close>, \<open>*\<close> and \<open>/\<close> applied to
  binary64 operands. The exponent is not bounded here, so \<open>fl\<close> is the machine's rounding
  wherever the machine neither overflows nor produces a subnormal number.\<close>

definition round_even :: "real \<Rightarrow> int" where
  "round_even y =
     (let f = \<lfloor>y\<rfloor>; d = y - of_int f
      in if d < 1 / 2 then f else if 1 / 2 < d then f + 1 else if even f then f else f + 1)"

text \<open>The distance between neighbouring binary64 numbers of the magnitude of \<open>x\<close>.\<close>

definition ulp_of :: "real \<Rightarrow> real" where
  "ulp_of x = 2 powr (of_int \<lfloor>log 2 \<bar>x\<bar>\<rfloor> - 52)"

definition fl :: "real \<Rightarrow> real" where
  "fl x = (if x = 0 then 0 else of_int (round_even (x / ulp_of x)) * ulp_of x)"

text \<open>\<open>np.pi\<close>, the binary64 number nearest to \<open>\<pi>\<close>.\<close>

definition np_pi :: real where
  "np_pi = 884279719003555 / 2 ^ 48"

subsection \<open>The generator in double precision\<close>

text \<open>The same operations as above with every arithmetic result rounded. The literals
  2.0 and 0.5 and the indices are binary64 numbers; the literal 0.1 is not and stands for
  \<open>fl 0.1\<close>. The C library's \<open>sin\<close> and \<open>exp\<close> on binary64 numbers are not part of the
  script and are parameters \<open>sinf\<close> and \<open>expf\<close>.\<close>

definition linspace_f64 :: "real \<Rightarrow> real \<Rightarrow> nat \<Rightarrow> real list" where
  "linspace_f64 start stop num =
     (let dv = num - 1;
          delta = fl (stop - start);
          y0 = map real [0..<num];
          y1 = (if dv > 0
                then (let step = fl (delta / real dv)
                      in if step = 0 then map (\<lambda>v. fl (fl (v / real dv) * delta)) y0
                         else map (\<lambda>v. fl (v * step)) y0)
                else map (\<lambda>v. fl (v * delta)) y0);
          y2 = map (\<lambda>v. fl (v + start)) y1
      in if num > 1 then y2[num - 1 := stop] else y2)"

definition np_add_f64 :: "real list \<Rightarrow> real list \<Rightarrow> real list" where
  "np_add_f64 xs ys = map2 (\<lambda>x y. fl (x + y)) xs ys"

definition random_normal_f64 ::
  "real \<Rightarrow> real \<Rightarrow> nat \<Rightarrow> rng \<Rightarrow> (error + real list) \<times> rng" where
  "random_normal_f64 loc scale num g =
     (if scale < 0 then (Inl (ValueError ''scale < 0''), g)
      else (Inr (map (\<lambda>k. fl (loc + fl (scale * g k))) [0..<num]), (\<lambda>k. g (k + num))))"

definition trend_f64 :: "real \<Rightarrow> nat \<Rightarrow> real list" where
  "trend_f64 base_inflation n = linspace_f64 2.0 base_inflation n"

definition seasonality_f64 :: "(real \<Rightarrow> real) \<Rightarrow> nat \<Rightarrow> real list" where
  "seasonality_f64 sinf n =
     map (\<lambda>x. fl (sinf x * 0.5)) (linspace_f64 0 (fl (8 * np_pi)) n)"

definition shock_f64 :: "(real \<Rightarrow> real) \<Rightarrow> real \<Rightarrow> nat \<Rightarrow> real list" where
  "shock_f64 expf shock_factor n =
     assign_from (np_zeros n) shock_start
       (map (\<lambda>k. fl (shock_factor * expf (fl (- fl 0.1 * k))))
          (np_arange (n - shock_start)))"

definition generate_scenario_data_f64 ::
  "(real \<Rightarrow> real) \<Rightarrow> (real \<Rightarrow> real) \<Rightarrow> real \<Rightarrow> real \<Rightarrow> real \<Rightarrow> rng
     \<Rightarrow> (error + dataframe) \<times> rng" where
  "generate_scenario_data_f64 sinf expf base_inflation shock_factor volatility g =
     (let dates = date_range_M \<lparr>year = 2020, month = 1, day = 1\<rparr>
                               \<lparr>year = 2026, month = 12, day = 31\<rparr>;
          n = length dates
      in case random_normal_f64 0 volatility n g of
           (Inl e, g') \<Rightarrow> (Inl e, g')
         | (Inr noise, g') \<Rightarrow>
             (let vals = np_add_f64
                           (np_add_f64
                              (np_add_f64 (trend_f64 base_inflation n) (seasonality_f64 sinf n))
                              noise)
                           (shock_f64 expf shock_factor n)
              in (Inr \<lparr>Date = dates, Inflation = vals\<rparr>, g')))"

subsection \<open>The closed form of the specification\<close>

text \<open>The value the specification gives for index \<open>i\<close> at volatility 0: trend plus
  seasonality plus shock, each by its formula.\<close>

definition closed_form :: "real \<Rightarrow> real \<Rightarrow> nat \<Rightarrow> real" where
  "closed_form t s i =
     (2.0 + (t - 2.0) * real i / 83)
     + 0.5 * sin (8 * pi * real i / 83)
     + (if i < 48 then 0 else s * exp (- 0.1 * (real i - 48)))"

subsection \<open>Names for the results of the fixed call\<close>

text \<open>The 84 month ends from January 2020 (month 24240 since year 0) on, and the noise and
  value arrays of a run over 84 points. They are shown below to be what the generator
  computes.\<close>

definition calendar :: "timestamp list" where
  "calendar = map (\<lambda>j. month_end (24240 + j)) [0..<84]"

definition noise_of :: "real \<Rightarrow> rng \<Rightarrow> real list" where
  "noise_of v g = map (\<lambda>k. 0 + v * g k) [0..<84]"

definition values_of :: "real \<Rightarrow> real \<Rightarrow> real \<Rightarrow> rng \<Rightarrow> real list" where
  "values_of t s v g =
     np_add (np_add (np_add (trend t 84) (seasonality 84)) (noise_of v g)) (shock s 84)"

text \<open>The value array of a double-precision run over 84 points, and the numbers that are
  an integer over a power of two.\<close>

definition values_f64 ::
  "(real \<Rightarrow> real) \<Rightarrow> (real \<Rightarrow> real) \<Rightarrow> real \<Rightarrow> real \<Rightarrow> real \<Rightarrow> rng \<Rightarrow> real list" where
  "values_f64 sinf expf t s v g =
     np_add_f64
       (np_add_f64 (np_add_f64 (trend_f64 t 84) (seasonality_f64 sinf 84))
          (map (\<lambda>k. fl (0 + fl (v * g k))) [0..<84]))
       (shock_f64 expf s 84)"

definition dyadic :: "real \<Rightarrow> bool" where
  "dyadic x = (\<exists>(n::int) (k::nat). x * 2 ^ k = of_int n)"

section \<open>Auxiliary facts\<close>

subsection \<open>The calendar\<close>

lemma month_end_2020:
  "month_end (24240 + j) =
     \<lparr>year = 2020 + j div 12, month = j mod 12 + 1,
      day = days_in_month (2020 + j div 12) (j mod 12 + 1)\<rparr>"
proof -
  have m: "(24240 + j) mod 12 = j mod 12"
    using mod_mult_self3 [of 2020 12 j] by simp
  have d: "(24240 + j) div 12 = 2020 + j div 12"
    using div_mult_self3 [of 12 2020 j] by simp
  show ?thesis unfolding month_end_def m d by simp
qed

lemma days_in_month_ge: "28 \<le> days_in_month y m"
  by (simp add: days_in_month_def)

lemma after_start:
  "ts_less \<lparr>year = 2020, month = 1, day = 1\<rparr> (month_end (24240 + j))"
proof -
  have "1 < days_in_month (2020 + j div 12) (j mod 12 + 1)"
    using days_in_month_ge [of "2020 + j div 12" "j mod 12 + 1"] by linarith
  then show ?thesis
    by (auto simp add: month_end_2020 ts_less_def)
qed

lemma before_stop:
  assumes "j < 84"
  shows "ts_le (month_end (24240 + j)) \<lparr>year = 2026, month = 12, day = 31\<rparr>"
proof (cases "j = 83")
  case True
  have "month_end (24240 + 83) = \<lparr>year = 2026, month = 12, day = 31\<rparr>"
    by (simp add: month_end_def days_in_month_def)
  then show ?thesis
    using True by (simp add: ts_le_def)
next
  case False
  then have "j < 83" using assms by simp
  moreover have "j = 12 * (j div 12) + j mod 12" by simp
  ultimately have "j div 12 < 6 \<or> (j div 12 = 6 \<and> j mod 12 < 11)" by linarith
  then have "ts_less (month_end (24240 + j)) \<lparr>year = 2026, month = 12, day = 31\<rparr>"
    by (auto simp add: month_end_2020 ts_less_def)
  then show ?thesis by (simp add: ts_le_def)
qed

lemma date_range_calendar:
  "date_range_M \<lparr>year = 2020, month = 1, day = 1\<rparr> \<lparr>year = 2026, month = 12, day = 31\<rparr>
     = calendar"
proof -
  let ?P = "\<lambda>d. ts_le \<lparr>year = 2020, month = 1, day = 1\<rparr> d \<and>
                 ts_le d \<lparr>year = 2026, month = 12, day = 31\<rparr>"
  have "\<forall>d \<in> set calendar. ?P d"
  proof
    fix d assume "d \<in> set calendar"
    then obtain j where j: "j < 84" "d = month_end (24240 + j)"
      by (auto simp add: calendar_def)
    show "?P d"
      using after_start [of j] before_stop [OF j(1)] j(2) unfolding ts_le_def by blast
  qed
  then have "filter ?P calendar = calendar" by (rule filter_True)
  moreover have
    "Suc (month_index \<lparr>year = 2026, month = 12, day = 31\<rparr>)
       - month_index \<lparr>year = 2020, month = 1, day = 1\<rparr> = 84"
    "month_index \<lparr>year = 2020, month = 1, day = 1\<rparr> = 24240"
    by (simp_all add: month_index_def)
  ultimately show ?thesis
    unfolding date_range_M_def calendar_def by simp
qed

lemma length_calendar: "length calendar = 84"
  by (simp add: calendar_def)

lemma calendar_nth:
  "i < 84 \<Longrightarrow> calendar ! i =
     \<lparr>year = 2020 + i div 12, month = i mod 12 + 1,
      day = days_in_month (2020 + i div 12) (i mod 12 + 1)\<rparr>"
  by (simp add: calendar_def month_end_2020 del: upt_Suc)

subsection \<open>The components\<close>

lemma linspace_length: "length (linspace a b n) = n"
  by (simp add: linspace_def Let_def)

lemma linspace_nth:
  assumes "1 < n" "i < n"
  shows "linspace a b n ! i = a + (b - a) * real i / real (n - 1)"
  using assms
  by (auto simp add: linspace_def Let_def nth_list_update field_simps)

lemma length_trend: "length (trend t n) = n"
  by (simp add: trend_def linspace_length)

lemma length_seasonality: "length (seasonality n) = n"
  by (simp add: seasonality_def linspace_length)

lemma length_shock: "shock_start \<le> n \<Longrightarrow> length (shock s n) = n"
  by (simp add: shock_def assign_from_def np_zeros_def np_arange_def)

lemma trend_nth: "i < 84 \<Longrightarrow> trend t 84 ! i = 2 + (t - 2) * real i / 83"
  by (simp add: trend_def linspace_nth)

lemma seasonality_nth: "i < 84 \<Longrightarrow> seasonality 84 ! i = 0.5 * sin (8 * pi * real i / 83)"
  by (simp add: seasonality_def linspace_nth linspace_length)

lemma shock_nth_before: "i < 48 \<Longrightarrow> shock s 84 ! i = 0"
  by (simp add: shock_def assign_from_def np_zeros_def np_arange_def shock_start_def
      nth_append)

lemma shock_nth_after:
  assumes "48 \<le> i" "i < 84"
  shows "shock s 84 ! i = s * exp (- 0.1 * (real i - 48))"
proof -
  have "i - 48 < 36" using assms by simp
  then show ?thesis
    using assms
    by (simp add: shock_def assign_from_def np_zeros_def np_arange_def shock_start_def
        nth_append of_nat_diff del: upt_Suc)
qed

subsection \<open>The generator on a valid volatility\<close>

lemma generate_returns:
  "\<not> v < 0 \<Longrightarrow>
   generate_scenario_data t s v g =
     (Inr \<lparr>Date = calendar, Inflation = values_of t s v g\<rparr>, (\<lambda>k. g (k + 84)))"
  unfolding generate_scenario_data_def date_range_calendar
  by (simp add: length_calendar random_normal_def values_of_def noise_of_def del: upt_Suc)

lemma generate_raises:
  "v < 0 \<Longrightarrow> generate_scenario_data t s v g = (Inl (ValueError ''scale < 0''), g)"
  unfolding generate_scenario_data_def date_range_calendar
  by (simp add: random_normal_def)

lemma length_values_of: "length (values_of t s v g) = 84"
  by (simp add: values_of_def np_add_def length_trend length_seasonality length_shock
      shock_start_def noise_of_def)

lemma values_of_nth:
  assumes "i < 84"
  shows "values_of t s v g ! i =
           trend t 84 ! i + seasonality 84 ! i + (0 + v * g i) + shock s 84 ! i"
  using assms
  by (simp add: values_of_def np_add_def length_trend length_seasonality length_shock
      shock_start_def noise_of_def del: upt_Suc)

lemma calendar_increasing:
  assumes "i < j" "j < 84"
  shows "ts_less (calendar ! i) (calendar ! j)"
proof -
  have i: "i < 84" using assms by simp
  have "i = 12 * (i div 12) + i mod 12" "j = 12 * (j div 12) + j mod 12"
       "i mod 12 < 12" "j mod 12 < 12"
    by simp_all
  with assms(1) have "i div 12 < j div 12 \<or> (i div 12 = j div 12 \<and> i mod 12 < j mod 12)"
    by linarith
  then show ?thesis
    using i assms(2) by (auto simp add: calendar_nth ts_less_def)
qed

lemma calendar_first: "calendar ! 0 = \<lparr>year = 2020, month = 1, day = 31\<rparr>"
  by (simp add: calendar_nth days_in_month_def)

lemma calendar_last: "calendar ! 83 = \<lparr>year = 2026, month = 12, day = 31\<rparr>"
  by (simp add: calendar_nth days_in_month_def)

lemma calendar_dec_2023: "calendar ! 47 = \<lparr>year = 2023, month = 12, day = 31\<rparr>"
  by (simp add: calendar_nth days_in_month_def)

lemma calendar_jan_2024: "calendar ! 48 = \<lparr>year = 2024, month = 1, day = 31\<rparr>"
  by (simp add: calendar_nth days_in_month_def)

lemma before_horizon:
  assumes "i < 84"
  shows "ts_less (calendar ! i) horizon = (i < 48)"
proof -
  have "i = 12 * (i div 12) + i mod 12" "i mod 12 < 12" by simp_all
  then have "(i div 12 < 4) = (i < 48)" by linarith
  moreover have "28 \<le> days_in_month (2020 + i div 12) (i mod 12 + 1)"
    by (rule days_in_month_ge)
  ultimately show ?thesis
    using assms by (auto simp add: calendar_nth ts_less_def horizon_def)
qed

lemma from_horizon:
  assumes "i < 84"
  shows "ts_le horizon (calendar ! i) = (48 \<le> i)"
proof -
  have "i = 12 * (i div 12) + i mod 12" "i mod 12 < 12" by simp_all
  then have e: "(4 \<le> i div 12) = (48 \<le> i)" by linarith
  have d: "28 \<le> days_in_month (2020 + i div 12) (i mod 12 + 1)"
    by (rule days_in_month_ge)
  have "ts_less horizon (calendar ! i) = (4 \<le> i div 12)"
    using assms d by (auto simp add: calendar_nth ts_less_def horizon_def)
  moreover have "horizon \<noteq> calendar ! i"
    using assms d by (auto simp add: calendar_nth horizon_def)
  ultimately show ?thesis
    using e by (simp add: ts_le_def)
qed

lemma horizon_not_in_calendar: "horizon \<notin> set calendar"
proof
  assume "horizon \<in> set calendar"
  then obtain i where i: "i < 84" "calendar ! i = horizon"
    by (auto simp add: in_set_conv_nth length_calendar)
  have "28 \<le> days_in_month (2020 + i div 12) (i mod 12 + 1)"
    by (rule days_in_month_ge)
  then show False
    using i by (auto simp add: calendar_nth horizon_def)
qed

lemma generate_Inr_D:
  assumes "generate_scenario_data t s v g = (Inr df, g')"
  shows "df = \<lparr>Date = calendar, Inflation = values_of t s v g\<rparr>"
proof (cases "v < 0")
  case True
  then show ?thesis using assms by (simp add: generate_raises)
next
  case False
  then show ?thesis using assms by (simp add: generate_returns)
qed

subsection \<open>Positions, maxima and row selection\<close>

lemma iloc_nonneg: "k < length xs \<Longrightarrow> iloc xs (int k) = Inr (xs ! k)"
  by (simp add: iloc_def)

lemma iloc_last: "xs \<noteq> [] \<Longrightarrow> iloc xs (- 1) = Inr (xs ! (length xs - 1))"
  by (simp add: iloc_def Let_def nat_diff_distrib' Suc_leI)

lemma series_max_Max:
  assumes "xs \<noteq> []"
  shows "series_max xs = Some (Max (set xs))"
proof (cases xs)
  case Nil
  then show ?thesis using assms by simp
next
  case (Cons x rest)
  have "Max (set (x # rest)) = fold max rest x" by (rule Max.set_eq_fold)
  then show ?thesis unfolding Cons series_max_def by simp
qed

lemma set_84: "length xs = 84 \<Longrightarrow> set xs = {xs ! i | i. i \<le> 83}"
proof -
  assume l: "length xs = 84"
  have "(i < 84) = (i \<le> 83)" for i :: nat by linarith
  then show ?thesis unfolding set_conv_nth l by simp
qed

lemma filter_split_at:
  assumes "\<forall>i<k. P (xs ! i)" and "\<forall>i. k \<le> i \<and> i < length xs \<longrightarrow> \<not> P (xs ! i)"
    and "k \<le> length xs"
  shows "filter P xs = take k xs"
proof -
  have a: "filter P (take k xs) = take k xs"
  proof (rule filter_True, rule ballI)
    fix x assume "x \<in> set (take k xs)"
    then obtain i where "i < length (take k xs)" "take k xs ! i = x"
      by (auto simp add: in_set_conv_nth)
    then show "P x" using assms(1) by auto
  qed
  have b: "filter P (drop k xs) = []"
  proof (rule filter_False, rule ballI)
    fix x assume "x \<in> set (drop k xs)"
    then obtain i where i: "i < length (drop k xs)" "drop k xs ! i = x"
      by (auto simp add: in_set_conv_nth)
    then have "k + i < length xs" "xs ! (k + i) = x" using assms(3) by auto
    then show "\<not> P x" using assms(2) by (metis le_add1)
  qed
  have "filter P xs = filter P (take k xs @ drop k xs)" by simp
  also have "\<dots> = take k xs" unfolding filter_append a b by simp
  finally show ?thesis .
qed

lemma filter_split_from:
  assumes "\<forall>i<k. \<not> P (xs ! i)" and "\<forall>i. k \<le> i \<and> i < length xs \<longrightarrow> P (xs ! i)"
    and "k \<le> length xs"
  shows "filter P xs = drop k xs"
proof -
  have a: "filter P (take k xs) = []"
  proof (rule filter_False, rule ballI)
    fix x assume "x \<in> set (take k xs)"
    then obtain i where "i < length (take k xs)" "take k xs ! i = x"
      by (auto simp add: in_set_conv_nth)
    then show "\<not> P x" using assms(1) by auto
  qed
  have b: "filter P (drop k xs) = drop k xs"
  proof (rule filter_True, rule ballI)
    fix x assume "x \<in> set (drop k xs)"
    then obtain i where i: "i < length (drop k xs)" "drop k xs ! i = x"
      by (auto simp add: in_set_conv_nth)
    then have "k + i < length xs" "xs ! (k + i) = x" using assms(3) by auto
    then show "P x" using assms(2) by (metis le_add1)
  qed
  have "filter P xs = filter P (take k xs @ drop k xs)" by simp
  also have "\<dots> = drop k xs" unfolding filter_append a b by simp
  finally show ?thesis .
qed

lemma select_rows_take:
  assumes "length vs = 84"
  shows "select_rows (\<lambda>d. ts_less d horizon) \<lparr>Date = calendar, Inflation = vs\<rparr>
           = \<lparr>Date = take 48 calendar, Inflation = take 48 vs\<rparr>"
proof -
  let ?rows = "zip calendar vs"
  have l: "length ?rows = 84" using assms by (simp add: length_calendar)
  have "filter (\<lambda>r. ts_less (fst r) horizon) ?rows = take 48 ?rows"
  proof (rule filter_split_at)
    show "\<forall>i<48. ts_less (fst (?rows ! i)) horizon"
      using assms by (simp add: length_calendar before_horizon)
    show "\<forall>i. 48 \<le> i \<and> i < length ?rows \<longrightarrow> \<not> ts_less (fst (?rows ! i)) horizon"
      using assms by (simp add: length_calendar before_horizon)
    show "48 \<le> length ?rows" using l by simp
  qed
  then show ?thesis
    using assms
    by (simp add: select_rows_def take_zip take_map [symmetric] length_calendar)
qed

lemma select_rows_drop:
  assumes "length vs = 84"
  shows "select_rows (\<lambda>d. ts_le horizon d) \<lparr>Date = calendar, Inflation = vs\<rparr>
           = \<lparr>Date = drop 48 calendar, Inflation = drop 48 vs\<rparr>"
proof -
  let ?rows = "zip calendar vs"
  have l: "length ?rows = 84" using assms by (simp add: length_calendar)
  have "filter (\<lambda>r. ts_le horizon (fst r)) ?rows = drop 48 ?rows"
  proof (rule filter_split_from)
    show "\<forall>i<48. \<not> ts_le horizon (fst (?rows ! i))"
      using assms by (simp add: length_calendar from_horizon)
    show "\<forall>i. 48 \<le> i \<and> i < length ?rows \<longrightarrow> ts_le horizon (fst (?rows ! i))"
      using assms by (simp add: length_calendar from_horizon)
    show "48 \<le> length ?rows" using l by simp
  qed
  then show ?thesis
    using assms
    by (simp add: select_rows_def drop_zip drop_map [symmetric] length_calendar)
qed

subsection \<open>Rounding to double precision\<close>

lemma round_even_of_int: "round_even (of_int n) = n"
  by (simp add: round_even_def)

lemma round_even_ge: "of_int m \<le> y \<Longrightarrow> m \<le> round_even y"
proof -
  assume "of_int m \<le> y"
  then have "m \<le> \<lfloor>y\<rfloor>" by (simp add: le_floor_iff)
  moreover have "\<lfloor>y\<rfloor> \<le> round_even y" by (simp add: round_even_def Let_def)
  ultimately show ?thesis by simp
qed

lemma round_even_le: "y \<le> of_int m \<Longrightarrow> round_even y \<le> m"
proof -
  assume a: "y \<le> of_int m"
  show ?thesis
  proof (cases "y = of_int m")
    case True
    then show ?thesis by (simp add: round_even_of_int)
  next
    case False
    then have "y < of_int m" using a by simp
    then have "\<lfloor>y\<rfloor> < m" by (simp add: floor_less_iff)
    then show ?thesis by (auto simp add: round_even_def Let_def)
  qed
qed

lemma ulp_pos: "0 < ulp_of x"
  by (simp add: ulp_of_def)

lemma ulp_eq:
  assumes "x \<noteq> 0" "2 powr of_int k \<le> \<bar>x\<bar>" "\<bar>x\<bar> < 2 powr (of_int k + 1)"
  shows "ulp_of x = 2 powr (of_int k - 52)"
proof -
  have "\<lfloor>log 2 \<bar>x\<bar>\<rfloor> = k"
    using assms by (subst floor_log_eq_powr_iff) auto
  then show ?thesis by (simp add: ulp_of_def)
qed

lemma ulp_bounds:
  assumes "x \<noteq> 0"
  shows "2 ^ 52 * ulp_of x \<le> \<bar>x\<bar>" and "\<bar>x\<bar> < 2 ^ 53 * ulp_of x"
proof -
  define k where "k = \<lfloor>log 2 \<bar>x\<bar>\<rfloor>"
  have "2 powr of_int k \<le> \<bar>x\<bar> \<and> \<bar>x\<bar> < 2 powr (of_int k + 1)"
    using assms floor_log_eq_powr_iff [of "\<bar>x\<bar>" 2 k] by (simp add: k_def)
  moreover have "2 powr of_int k = 2 ^ 52 * ulp_of x"
    unfolding ulp_of_def k_def [symmetric]
    by (simp add: powr_diff powr_realpow [symmetric])
  moreover have "2 powr (of_int k + 1) = 2 ^ 53 * ulp_of x"
    unfolding ulp_of_def k_def [symmetric]
    by (simp add: powr_diff powr_add powr_realpow [symmetric])
  ultimately show "2 ^ 52 * ulp_of x \<le> \<bar>x\<bar>" and "\<bar>x\<bar> < 2 ^ 53 * ulp_of x" by simp_all
qed

lemma fl_zero: "fl 0 = 0"
  by (simp add: fl_def)

lemma fl_fix:
  assumes "x / ulp_of x = of_int m"
  shows "fl x = x"
proof (cases "x = 0")
  case True
  then show ?thesis by (simp add: fl_def)
next
  case False
  have "of_int (round_even (x / ulp_of x)) * ulp_of x = of_int m * ulp_of x"
    unfolding assms round_even_of_int ..
  also have "\<dots> = x" using assms ulp_pos [of x] by (simp add: field_simps)
  finally show ?thesis using False by (simp add: fl_def)
qed

lemma fl_eval:
  assumes "u = 2 powr of_int k" "2 ^ 52 * u \<le> \<bar>x\<bar>" "\<bar>x\<bar> < 2 ^ 53 * u"
  shows "fl x = of_int (round_even (x / u)) * u"
proof -
  have u: "0 < u" using assms(1) by simp
  then have x: "x \<noteq> 0" using assms(2) by auto
  have a: "2 powr of_int (k + 52) = 2 ^ 52 * u"
    unfolding assms(1) by (simp add: powr_add powr_realpow [symmetric])
  have b: "2 powr (of_int (k + 52) + 1) = 2 ^ 53 * u"
    unfolding assms(1) by (simp add: powr_add powr_realpow [symmetric])
  have "ulp_of x = 2 powr (of_int (k + 52) - 52)"
    using x assms(2,3) unfolding a [symmetric] b [symmetric] by (rule ulp_eq)
  then have "ulp_of x = u" using assms(1) by simp
  then show ?thesis using x by (simp add: fl_def)
qed

lemma fl_eval_frac:
  assumes "2 ^ 52 / 2 ^ n \<le> \<bar>x\<bar>" "\<bar>x\<bar> < 2 ^ 53 / 2 ^ n"
  shows "fl x = of_int (round_even (x * 2 ^ n)) / 2 ^ n"
proof -
  have u: "(1 / 2 ^ n :: real) = 2 powr of_int (- int n)"
    by (simp add: powr_minus powr_realpow [symmetric] field_simps)
  have "fl x = of_int (round_even (x / (1 / 2 ^ n))) * (1 / 2 ^ n)"
    using u assms by (intro fl_eval [where k = "- int n"]) simp_all
  then show ?thesis by simp
qed

lemma fl_rounded_fix:
  assumes "x \<noteq> 0"
  shows "fl (of_int (round_even (x / ulp_of x)) * ulp_of x) = of_int (round_even (x / ulp_of x)) * ulp_of x"
proof -
  define u where "u = ulp_of x"
  define y where "y = x / u"
  define n where "n = round_even y"
  define k where "k = \<lfloor>log 2 \<bar>x\<bar>\<rfloor> - 52"
  have u: "0 < u" unfolding u_def by (rule ulp_pos)
  have uk: "u = 2 powr of_int k" unfolding u_def ulp_of_def k_def by simp
  have b: "2 ^ 52 * u \<le> \<bar>x\<bar>" "\<bar>x\<bar> < 2 ^ 53 * u"
    unfolding u_def using ulp_bounds [OF assms] by simp_all
  have yb: "2 ^ 52 \<le> \<bar>y\<bar>" "\<bar>y\<bar> < 2 ^ 53"
    using b u unfolding y_def by (simp_all add: field_simps)
  have nb: "2 ^ 52 \<le> \<bar>n\<bar> \<and> \<bar>n\<bar> \<le> 2 ^ 53"
  proof (cases "0 \<le> y")
    case True
    then have "of_int (2 ^ 52) \<le> y" "y \<le> of_int (2 ^ 53)" using yb by simp_all
    then have "2 ^ 52 \<le> n" "n \<le> 2 ^ 53"
      unfolding n_def by (simp_all only: round_even_ge round_even_le)
    then show ?thesis by simp
  next
    case False
    then have "y \<le> of_int (- (2 ^ 52))" "of_int (- (2 ^ 53)) \<le> y" using yb by simp_all
    then have "n \<le> - (2 ^ 52)" "- (2 ^ 53) \<le> n"
      unfolding n_def by (simp_all only: round_even_ge round_even_le)
    then show ?thesis by simp
  qed
  have goal: "fl (of_int n * u) = of_int n * u"
  proof (cases "\<bar>n\<bar> = 2 ^ 53")
    case True
    have u2: "2 * u = 2 powr of_int (k + 1)" unfolding uk by (simp add: powr_add)
    have ab: "\<bar>of_int n * u\<bar> = 2 ^ 53 * u"
      using True u by (simp add: abs_mult) 
    have e1: "2 ^ 52 * (2 * u) \<le> \<bar>of_int n * u\<bar>" unfolding ab using u by simp
    have e2: "\<bar>of_int n * u\<bar> < 2 ^ 53 * (2 * u)" unfolding ab using u by simp
    have "fl (of_int n * u) = of_int (round_even (of_int n * u / (2 * u))) * (2 * u)"
      using u2 e1 e2 by (rule fl_eval)
    moreover have "of_int n * u / (2 * u) = of_int (n div 2)"
    proof -
      have "even n" using True by (metis dvd_abs_iff even_numeral even_power zero_less_numeral)
      then have "real_of_int (n div 2) = of_int n / 2" by (simp add: real_of_int_div)
      then show ?thesis using u by simp
    qed
    ultimately have "fl (of_int n * u) = of_int (n div 2) * (2 * u)"
      by (simp add: round_even_of_int)
    moreover have "even n" using True by (metis dvd_abs_iff even_numeral even_power zero_less_numeral)
    then have "real_of_int (n div 2) = of_int n / 2" by (simp add: real_of_int_div)
    ultimately show ?thesis by simp
  next
    case False
    then have lt: "\<bar>n\<bar> < 2 ^ 53" using nb by linarith
    have "\<bar>of_int n * u\<bar> = of_int \<bar>n\<bar> * u" using u by (simp add: abs_mult)
    moreover have "real_of_int (2 ^ 52) \<le> of_int \<bar>n\<bar>"
      using nb by (simp only: of_int_le_iff)
    then have "of_int (2 ^ 52) * u \<le> of_int \<bar>n\<bar> * u"
      using u by (intro mult_right_mono) simp_all
    moreover have "real_of_int \<bar>n\<bar> < of_int (2 ^ 53)"
      using lt by (simp only: of_int_less_iff)
    then have "of_int \<bar>n\<bar> * u < of_int (2 ^ 53) * u"
      using u by (intro mult_strict_right_mono) simp_all
    ultimately have "2 ^ 52 * u \<le> \<bar>of_int n * u\<bar>" "\<bar>of_int n * u\<bar> < 2 ^ 53 * u"
      by simp_all
    with uk have "fl (of_int n * u) = of_int (round_even (of_int n * u / u)) * u"
      by (rule fl_eval)
    then show ?thesis using u by (simp add: round_even_of_int)
  qed
  then show ?thesis unfolding n_def y_def u_def .
qed

lemma fl_idem: "fl (fl x) = fl x"
proof (cases "x = 0")
  case True
  then show ?thesis by (simp add: fl_def)
next
  case False
  then show ?thesis using fl_rounded_fix [OF False] by (simp add: fl_def)
qed

lemma round_even_bounds:
  assumes "x \<noteq> 0"
  shows "2 ^ 52 \<le> \<bar>round_even (x / ulp_of x)\<bar>"
proof -
  define y where "y = x / ulp_of x"
  have "2 ^ 52 * ulp_of x \<le> \<bar>x\<bar>" using ulp_bounds(1) [OF assms] .
  then have yb: "2 ^ 52 \<le> \<bar>y\<bar>"
    using ulp_pos [of x] unfolding y_def by (simp add: field_simps)
  show ?thesis
  proof (cases "0 \<le> y")
    case True
    then have "of_int (2 ^ 52) \<le> y" using yb by simp
    then have "2 ^ 52 \<le> round_even y" by (simp only: round_even_ge)
    then show ?thesis unfolding y_def by simp
  next
    case False
    then have "y \<le> of_int (- (2 ^ 52))" using yb by simp
    then have "round_even y \<le> - (2 ^ 52)" by (simp only: round_even_le)
    then show ?thesis unfolding y_def by simp
  qed
qed

lemma fl_eq_0_iff: "fl x = 0 \<longleftrightarrow> x = 0"
proof
  assume z: "fl x = 0"
  show "x = 0"
  proof (rule ccontr)
    assume nz: "x \<noteq> 0"
    have "round_even (x / ulp_of x) \<noteq> 0" using round_even_bounds [OF nz] by auto
    then show False using z nz ulp_pos [of x] by (simp add: fl_def)
  qed
next
  assume "x = 0" then show "fl x = 0" by (simp add: fl_def)
qed

lemma dyadic_fl: "dyadic (fl x)"
proof (cases "x = 0")
  case True
  then show ?thesis unfolding dyadic_def by (intro exI [of _ 0]) (simp add: fl_def)
next
  case False
  define m where "m = round_even (x / ulp_of x)"
  define e where "e = \<lfloor>log 2 \<bar>x\<bar>\<rfloor> - 52"
  have f: "fl x = of_int m * 2 powr of_int e"
    using False by (simp add: fl_def m_def e_def ulp_of_def)
  show ?thesis
  proof (cases "0 \<le> e")
    case True
    then have "2 powr real_of_int e = 2 ^ nat e"
      by (simp add: powr_real_of_int)
    then have "fl x * 2 ^ 0 = of_int (m * 2 ^ nat e)" using f by simp
    then show ?thesis unfolding dyadic_def by blast
  next
    case False
    then have "2 powr real_of_int e = inverse (2 ^ nat (- e))"
      by (simp add: powr_real_of_int)
    then have "fl x * 2 ^ nat (- e) = of_int m" using f by simp
    then show ?thesis unfolding dyadic_def by blast
  qed
qed

lemma dyadic_diff:
  assumes "dyadic a" "dyadic b"
  shows "dyadic (a - b)"
proof -
  obtain n k where a: "a * 2 ^ k = of_int n" using assms(1) unfolding dyadic_def by blast
  obtain m j where b: "b * 2 ^ j = of_int m" using assms(2) unfolding dyadic_def by blast
  have "(a - b) * 2 ^ (k + j) = (a * 2 ^ k) * 2 ^ j - (b * 2 ^ j) * 2 ^ k"
    by (simp add: power_add algebra_simps)
  also have "\<dots> = of_int (n * 2 ^ j - m * 2 ^ k)" unfolding a b by simp
  finally show ?thesis unfolding dyadic_def by blast
qed

lemma not_dyadic_83: "\<not> dyadic (1 / 83)"
proof
  assume "dyadic (1 / 83)"
  then obtain n :: int and k :: nat where "(1 / 83 :: real) * 2 ^ k = of_int n"
    unfolding dyadic_def by blast
  then have "(2 ^ k :: real) = of_int (83 * n)" by simp
  then have "real_of_int (2 ^ k) = of_int (83 * n)" by simp
  then have "(2 ^ k :: int) = 83 * n" by (simp only: of_int_eq_iff)
  then have d: "(83 :: int) dvd 2 ^ k" by simp
  have "coprime (83 :: int) 2" by simp
  then have c: "coprime (83 :: int) (2 ^ k)" by (simp only: coprime_power_right_iff) simp
  have "is_unit (83 :: int)" using c dvd_refl d by (rule coprime_common_divisor)
  then show False by simp
qed

subsection \<open>The generator in double precision\<close>

lemma length_linspace_f64: "length (linspace_f64 a b n) = n"
  by (simp add: linspace_f64_def Let_def)

lemma linspace_f64_nth:
  assumes "1 < n" "i < n"
  shows "linspace_f64 a b n ! i =
           (if i = n - 1 then b
            else fl (fl (real i * fl (fl (b - a) / real (n - 1))) + a))"
proof (cases "fl (fl (b - a) / real (n - 1)) = 0")
  case True
  then have "fl (b - a) / real (n - 1) = 0" by (simp only: fl_eq_0_iff)
  then have d: "fl (b - a) = 0" using assms(1) by simp
  show ?thesis
    using assms True by (simp add: linspace_f64_def Let_def nth_list_update d fl_zero)
next
  case False
  then show ?thesis
    using assms by (simp add: linspace_f64_def Let_def nth_list_update)
qed

lemma fl_8pi: "fl (8 * np_pi) = 8 * np_pi"
  unfolding np_pi_def
  by (subst fl_eval_frac [where n = 48]) (simp_all add: round_even_def)

lemma trend_f64_nth:
  "i < 84 \<Longrightarrow> trend_f64 t 84 ! i =
     (if i = 83 then t else fl (fl (real i * fl (fl (t - 2) / 83)) + 2))"
  by (simp add: trend_f64_def linspace_f64_nth)

lemma seasonality_f64_nth:
  assumes "i < 84"
  shows "seasonality_f64 sinf 84 ! i =
     fl (sinf (if i = 83 then 8 * np_pi else fl (real i * fl (8 * np_pi / 83))) * 0.5)"
  using assms
  by (simp add: seasonality_f64_def linspace_f64_nth length_linspace_f64 fl_8pi fl_idem)

lemma shock_f64_nth_before: "i < 48 \<Longrightarrow> shock_f64 expf s 84 ! i = 0"
  by (simp add: shock_f64_def assign_from_def np_zeros_def np_arange_def shock_start_def
      nth_append)

lemma shock_f64_nth_after:
  assumes "48 \<le> i" "i < 84"
  shows "shock_f64 expf s 84 ! i = fl (s * expf (fl (- fl 0.1 * (real i - 48))))"
proof -
  have "i - 48 < 36" using assms by simp
  then show ?thesis
    using assms
    by (simp add: shock_f64_def assign_from_def np_zeros_def np_arange_def shock_start_def
        nth_append of_nat_diff del: upt_Suc)
qed

lemma length_trend_f64: "length (trend_f64 t n) = n"
  by (simp add: trend_f64_def length_linspace_f64)

lemma length_seasonality_f64: "length (seasonality_f64 sinf n) = n"
  by (simp add: seasonality_f64_def length_linspace_f64)

lemma length_shock_f64: "shock_start \<le> n \<Longrightarrow> length (shock_f64 expf s n) = n"
  by (simp add: shock_f64_def assign_from_def np_zeros_def np_arange_def)

lemma generate_f64_returns:
  "\<not> v < 0 \<Longrightarrow>
   generate_scenario_data_f64 sinf expf t s v g =
     (Inr \<lparr>Date = calendar, Inflation = values_f64 sinf expf t s v g\<rparr>, (\<lambda>k. g (k + 84)))"
  unfolding generate_scenario_data_f64_def date_range_calendar
  by (simp add: length_calendar random_normal_f64_def values_f64_def del: upt_Suc)

lemma values_f64_nth:
  assumes "i < 84"
  shows "values_f64 sinf expf t s v g ! i =
           fl (fl (fl (trend_f64 t 84 ! i + seasonality_f64 sinf 84 ! i) + fl (0 + fl (v * g i)))
               + shock_f64 expf s 84 ! i)"
  using assms
  by (simp add: values_f64_def np_add_f64_def length_trend_f64 length_seasonality_f64
      length_shock_f64 shock_start_def del: upt_Suc)

lemma values_f64_zero_volatility:
  assumes "i < 84"
  shows "values_f64 sinf expf t s 0 g ! i =
           fl (fl (trend_f64 t 84 ! i + seasonality_f64 sinf 84 ! i) + shock_f64 expf s 84 ! i)"
  using assms by (simp add: values_f64_nth fl_zero fl_idem)

lemma fl_step_35: "fl (3 / 2 / 83) = 5208982701536959 / 2 ^ 58"
  by (subst fl_eval_frac [where n = 58]) (simp_all add: round_even_def)

lemma fl_3_2: "fl (3 / 2) = 3 / 2"
  by (subst fl_eval_frac [where n = 52]) (simp_all add: round_even_def)

lemma fl_trend_35_1: "fl (5208982701536959 / 2 ^ 58 + 2) = 4544294804726253 / 2 ^ 51"
  by (subst fl_eval_frac [where n = 51]) (simp_all add: round_even_def)

lemma trend_f64_35_1: "trend_f64 3.5 84 ! 1 = 4544294804726253 / 2 ^ 51"
proof -
  have "trend_f64 3.5 84 ! 1 = fl (fl (1 * fl (fl (3.5 - 2) / 83)) + 2)"
    using trend_f64_nth [of 1 "3.5"] by simp
  also have "(3.5 :: real) - 2 = 3 / 2" by simp
  also have "fl (3 / 2) / 83 = 3 / 2 / 83" by (simp only: fl_3_2)
  also have "fl (1 * fl (3 / 2 / 83)) = fl (3 / 2 / 83)" by (simp add: fl_idem)
  also have "fl (fl (3 / 2 / 83) + 2) = 4544294804726253 / 2 ^ 51"
    by (simp only: fl_step_35 fl_trend_35_1)
  finally show ?thesis .
qed

lemma exact_arithmetic_values:
  assumes "i < 84"
  shows "\<exists>dr. fst (generate_scenario_data t s 0 g) = Inr dr \<and>
           Inflation dr ! i = closed_form t s i"
proof -
  have "values_of t s 0 g ! i = closed_form t s i"
  proof (cases "i < 48")
    case True
    then show ?thesis
      using assms
      by (simp add: closed_form_def values_of_nth trend_nth seasonality_nth shock_nth_before)
  next
    case False
    then show ?thesis
      using assms
      by (simp add: closed_form_def values_of_nth trend_nth seasonality_nth shock_nth_after)
  qed
  then show ?thesis by (simp add: generate_returns)
qed

lemma noise_f64_zero: "fst (random_normal_f64 0 0 84 g) = Inr (replicate 84 0)"
  by (simp add: random_normal_f64_def fl_zero map_replicate_const del: upt_Suc)

section \<open>The claims\<close>

text \<open>
  C1, in double precision. With volatility 0 the noise the generator draws is the zero array
  whatever the random source holds, and the value at every index \<open>i\<close> of the 84 is the
  double-precision sum \<open>(trend[i] + seasonality[i]) + shock[i]\<close> of the three components
  as the code computes them: the trend is the rounded \<open>i * step + 2.0\<close> with
  \<open>step = (t - 2.0) / 83\<close>, and \<open>t\<close> itself at index 83; the seasonality is half the sine
  of the rounded \<open>i * (8 * np.pi / 83)\<close>, of \<open>8 * np.pi\<close> at index 83; the shock is 0
  before index 48 and the rounded \<open>s * exp (-0.1 * (i - 48))\<close> from index 48 on. In exact
  arithmetic the value is the closed form of the specification,
  \<open>(2.0 + (t - 2.0) * i / 83) + 0.5 * sin (8\<pi> * i / 83)\<close> plus the shock term.
\<close>

theorem zero_volatility_values_f64:
  assumes "i < 84"
  shows "\<exists>df. fst (generate_scenario_data_f64 sinf expf t s 0 g) = Inr df \<and>
           fst (random_normal_f64 0 0 84 g) = Inr (replicate 84 0) \<and>
           Inflation df ! i =
             fl (fl (trend_f64 t 84 ! i + seasonality_f64 sinf 84 ! i)
                 + shock_f64 expf s 84 ! i) \<and>
           trend_f64 t 84 ! i =
             (if i = 83 then t else fl (fl (real i * fl (fl (t - 2.0) / 83)) + 2.0)) \<and>
           seasonality_f64 sinf 84 ! i =
             fl (sinf (if i = 83 then 8 * np_pi else fl (real i * fl (8 * np_pi / 83))) * 0.5) \<and>
           shock_f64 expf s 84 ! i =
             (if i < 48 then 0 else fl (s * expf (fl (- fl 0.1 * (real i - 48))))) \<and>
           (\<exists>dr. fst (generate_scenario_data t s 0 g) = Inr dr \<and>
                 Inflation dr ! i = closed_form t s i)"
proof -
  let ?df = "\<lparr>Date = calendar, Inflation = values_f64 sinf expf t s 0 g\<rparr>"
  have r: "fst (generate_scenario_data_f64 sinf expf t s 0 g) = Inr ?df"
    by (simp add: generate_f64_returns)
  have v: "Inflation ?df ! i =
             fl (fl (trend_f64 t 84 ! i + seasonality_f64 sinf 84 ! i)
                 + shock_f64 expf s 84 ! i)"
    using assms by (simp add: values_f64_zero_volatility)
  have tr: "trend_f64 t 84 ! i =
             (if i = 83 then t else fl (fl (real i * fl (fl (t - 2.0) / 83)) + 2.0))"
    using assms by (simp add: trend_f64_nth)
  have se: "seasonality_f64 sinf 84 ! i =
             fl (sinf (if i = 83 then 8 * np_pi else fl (real i * fl (8 * np_pi / 83))) * 0.5)"
    using assms by (rule seasonality_f64_nth)
  have sh: "shock_f64 expf s 84 ! i =
             (if i < 48 then 0 else fl (s * expf (fl (- fl 0.1 * (real i - 48)))))"
    using assms by (simp add: shock_f64_nth_before shock_f64_nth_after)
  show ?thesis
    using r v tr se sh noise_f64_zero [of g] exact_arithmetic_values [OF assms, of t s g]
    by blast
qed

theorem zero_volatility_values_f64_witness:
  "(1::nat) < 84 \<and>
   (\<exists>df. fst (generate_scenario_data_f64 (\<lambda>x. fl (sin x)) (\<lambda>x. fl (exp x)) 3.5 1.5 0 (\<lambda>k. 1))
            = Inr df \<and>
         Inflation df ! 1 =
           fl (fl (trend_f64 3.5 84 ! 1 + seasonality_f64 (\<lambda>x. fl (sin x)) 84 ! 1)
               + shock_f64 (\<lambda>x. fl (exp x)) 1.5 84 ! 1) \<and>
         (\<exists>dr. fst (generate_scenario_data 3.5 1.5 0 (\<lambda>k. 1)) = Inr dr \<and>
               Inflation dr ! 1 = closed_form 3.5 1.5 1))"
proof -
  have h: "(1::nat) < 84" by simp
  show ?thesis
    using h zero_volatility_values_f64
      [OF h, of "\<lambda>x. fl (sin x)" "\<lambda>x. fl (exp x)" "3.5" "1.5" "\<lambda>k. 1"]
    by blast
qed

text \<open>
  C1 with exact equality to the closed form fails in double precision. For the target 3.5 the trend at index 1 is
  the binary64 number \<open>4544294804726253 / 2 ^ 51\<close> and not \<open>2.0 + 1.5 / 83\<close>. For the
  values themselves: at index 1 the closed forms for the targets 3.5 and 4.5 differ by
  \<open>1 / 83\<close>, which is no difference of two binary64 numbers, so whatever the C library's
  sine returns, the value the code computes differs from the closed form for at least one
  of the two targets.
\<close>

theorem closed_form_not_exact_in_doubles:
  "trend_f64 3.5 84 ! 1 = 4544294804726253 / 2 ^ 51 \<and>
   trend_f64 3.5 84 ! 1 \<noteq> 2.0 + (3.5 - 2.0) * real 1 / 83 \<and>
   (\<forall>sinf expf g. \<exists>d1 d2.
      fst (generate_scenario_data_f64 sinf expf 3.5 1.5 0 g) = Inr d1 \<and>
      fst (generate_scenario_data_f64 sinf expf 4.5 1.5 0 g) = Inr d2 \<and>
      (Inflation d1 ! 1 \<noteq> closed_form 3.5 1.5 1 \<or>
       Inflation d2 ! 1 \<noteq> closed_form 4.5 1.5 1))"
proof (intro conjI allI)
  show "trend_f64 3.5 84 ! 1 = 4544294804726253 / 2 ^ 51" by (rule trend_f64_35_1)
  show "trend_f64 3.5 84 ! 1 \<noteq> 2.0 + (3.5 - 2.0) * real 1 / 83"
    unfolding trend_f64_35_1 by simp
next
  fix sinf expf :: "real \<Rightarrow> real" and g :: rng
  let ?v1 = "values_f64 sinf expf 3.5 1.5 0 g" and ?v2 = "values_f64 sinf expf 4.5 1.5 0 g"
  have d1: "dyadic (?v1 ! 1)" and d2: "dyadic (?v2 ! 1)"
    by (simp_all add: values_f64_nth dyadic_fl)
  have e: "closed_form 4.5 1.5 1 - closed_form 3.5 1.5 1 = 1 / 83"
    by (simp add: closed_form_def)
  have "\<not> dyadic (closed_form 4.5 1.5 1 - closed_form 3.5 1.5 1)"
    unfolding e by (rule not_dyadic_83)
  then have "?v1 ! 1 \<noteq> closed_form 3.5 1.5 1 \<or> ?v2 ! 1 \<noteq> closed_form 4.5 1.5 1"
    using dyadic_diff [OF d2 d1] by auto
  then show "\<exists>d1 d2.
      fst (generate_scenario_data_f64 sinf expf 3.5 1.5 0 g) = Inr d1 \<and>
      fst (generate_scenario_data_f64 sinf expf 4.5 1.5 0 g) = Inr d2 \<and>
      (Inflation d1 ! 1 \<noteq> closed_form 3.5 1.5 1 \<or>
       Inflation d2 ! 1 \<noteq> closed_form 4.5 1.5 1)"
    by (simp add: generate_f64_returns)
qed

text \<open>
  C2. For a volatility that is not negative the generator returns a frame of 84 dates and
  84 values. The date column is the result of the fixed \<open>date_range\<close> call, in which no
  parameter occurs: entry \<open>i\<close> is the last day of month \<open>i mod 12 + 1\<close> of year
  \<open>2020 + i div 12\<close>, from 2020-01-31 to 2026-12-31, each date strictly before the next.
\<close>

theorem fixed_calendar:
  assumes "0 \<le> v"
  shows "\<exists>df g'. generate_scenario_data t s v g = (Inr df, g') \<and>
           length (Date df) = 84 \<and> length (Inflation df) = 84 \<and>
           Date df = date_range_M \<lparr>year = 2020, month = 1, day = 1\<rparr>
                                  \<lparr>year = 2026, month = 12, day = 31\<rparr> \<and>
           (\<forall>i<84. Date df ! i =
              \<lparr>year = 2020 + i div 12, month = i mod 12 + 1,
               day = days_in_month (2020 + i div 12) (i mod 12 + 1)\<rparr>) \<and>
           (\<forall>i j. i < j \<and> j < 84 \<longrightarrow> ts_less (Date df ! i) (Date df ! j)) \<and>
           Date df ! 0 = \<lparr>year = 2020, month = 1, day = 31\<rparr> \<and>
           Date df ! 83 = \<lparr>year = 2026, month = 12, day = 31\<rparr>"
proof -
  let ?df = "\<lparr>Date = calendar, Inflation = values_of t s v g\<rparr>"
  have "\<not> v < 0" using assms by simp
  then have r: "generate_scenario_data t s v g = (Inr ?df, (\<lambda>k. g (k + 84)))"
    by (rule generate_returns)
  have d: "Date ?df = calendar" and f: "Inflation ?df = values_of t s v g"
    by simp_all
  show ?thesis
  proof (intro exI conjI allI impI)
    show "generate_scenario_data t s v g = (Inr ?df, (\<lambda>k. g (k + 84)))" by (rule r)
    show "length (Date ?df) = 84" unfolding d by (rule length_calendar)
    show "length (Inflation ?df) = 84" unfolding f by (rule length_values_of)
    show "Date ?df = date_range_M \<lparr>year = 2020, month = 1, day = 1\<rparr>
                                   \<lparr>year = 2026, month = 12, day = 31\<rparr>"
      unfolding d by (rule date_range_calendar [symmetric])
    show "Date ?df ! 0 = \<lparr>year = 2020, month = 1, day = 31\<rparr>"
      unfolding d by (rule calendar_first)
    show "Date ?df ! 83 = \<lparr>year = 2026, month = 12, day = 31\<rparr>"
      unfolding d by (rule calendar_last)
  next
    fix i :: nat assume "i < 84"
    then show "Date ?df ! i =
              \<lparr>year = 2020 + i div 12, month = i mod 12 + 1,
               day = days_in_month (2020 + i div 12) (i mod 12 + 1)\<rparr>"
      unfolding d by (rule calendar_nth)
  next
    fix i j :: nat assume "i < j \<and> j < 84"
    then show "ts_less (Date ?df ! i) (Date ?df ! j)"
      unfolding d using calendar_increasing by blast
  qed
qed

theorem fixed_calendar_witness:
  "(0::real) \<le> 0.4 \<and>
   (\<exists>df g'. generate_scenario_data 3.5 1.5 0.4 (\<lambda>k. 1) = (Inr df, g') \<and>
       length (Date df) = 84 \<and> length (Inflation df) = 84 \<and>
       Date df ! 0 = \<lparr>year = 2020, month = 1, day = 31\<rparr> \<and>
       Date df ! 83 = \<lparr>year = 2026, month = 12, day = 31\<rparr>)"
proof -
  have h: "(0::real) \<le> 0.4" by simp
  show ?thesis
    using h fixed_calendar [OF h, of "3.5" "1.5" "\<lambda>k. 1"] by blast
qed

text \<open>
  C3. The shock array of the 84-point run is 0 at every index below 48 and equals the
  shock factor at index 48; for a positive shock factor it is positive from index 48 on
  and strictly decreasing there.
\<close>

theorem shock_profile:
  "(\<forall>i<48. shock s 84 ! i = 0) \<and> shock s 84 ! 48 = s \<and>
   (0 < s \<longrightarrow>
      (\<forall>i. 48 \<le> i \<and> i < 84 \<longrightarrow> 0 < shock s 84 ! i) \<and>
      (\<forall>i j. 48 \<le> i \<and> i < j \<and> j < 84 \<longrightarrow> shock s 84 ! j < shock s 84 ! i))"
proof (intro conjI impI allI)
  fix i :: nat assume "i < 48"
  then show "shock s 84 ! i = 0" by (rule shock_nth_before)
next
  show "shock s 84 ! 48 = s" by (simp add: shock_nth_after)
next
  fix i :: nat assume "0 < s" "48 \<le> i \<and> i < 84"
  then show "0 < shock s 84 ! i" by (simp add: shock_nth_after)
next
  fix i j :: nat assume s: "0 < s" and ij: "48 \<le> i \<and> i < j \<and> j < 84"
  then have "exp (- 0.1 * (real j - 48)) < exp (- 0.1 * (real i - 48))" by simp
  then have "s * exp (- 0.1 * (real j - 48)) < s * exp (- 0.1 * (real i - 48))"
    using s by (rule mult_strict_left_mono)
  then show "shock s 84 ! j < shock s 84 ! i"
    using ij by (simp add: shock_nth_after)
qed

theorem shock_profile_witness:
  "shock 1.5 84 ! 47 = 0 \<and> shock 1.5 84 ! 48 = 1.5 \<and>
   0 < shock 1.5 84 ! 49 \<and> shock 1.5 84 ! 50 < shock 1.5 84 ! 49"
proof -
  have h: "(0::real) < 1.5" "(47::nat) < 48" "(48::nat) \<le> 49 \<and> (49::nat) < 84"
    "(48::nat) \<le> 49 \<and> (49::nat) < 50 \<and> (50::nat) < 84"
    by simp_all
  show ?thesis
    using h shock_profile [of "1.5"] by blast
qed

text \<open>
  C4. The trend array starts at 2.0 and ends at the target: for every length above 1, and
  so for the 84 of the generator, its first entry is 2 and its last entry is the target.
\<close>

theorem trend_endpoints:
  assumes "1 < n"
  shows "trend t n ! 0 = 2 \<and> trend t n ! (n - 1) = t"
  using assms by (simp add: trend_def linspace_def Let_def nth_list_update)

theorem trend_endpoints_witness:
  "(1::nat) < 84 \<and> trend 3.5 84 ! 0 = 2 \<and> trend 3.5 84 ! 83 = 3.5"
  using trend_endpoints [of 84 "3.5"] by simp

text \<open>
  C5. With a negative volatility the generator returns no frame: the noise draw raises
  \<open>ValueError\<close>, the generator passes it on and leaves the random source untouched, and
  the outcome differs from the one of volatility 0.
\<close>

theorem negative_volatility_raises:
  assumes "v < 0"
  shows "generate_scenario_data t s v g = (Inl (ValueError ''scale < 0''), g) \<and>
         random_normal 0 v 84 g = (Inl (ValueError ''scale < 0''), g) \<and>
         fst (generate_scenario_data t s v g) \<noteq> fst (generate_scenario_data t s 0 g)"
  using assms by (simp add: generate_raises generate_returns random_normal_def)

theorem negative_volatility_raises_witness:
  "(- 1 :: real) < 0 \<and>
   generate_scenario_data 3.5 1.5 (- 1) (\<lambda>k. 0) = (Inl (ValueError ''scale < 0''), (\<lambda>k. 0)) \<and>
   fst (generate_scenario_data 3.5 1.5 (- 1) (\<lambda>k. 0)) \<noteq> fst (generate_scenario_data 3.5 1.5 0 (\<lambda>k. 0))"
proof -
  have h: "(- 1 :: real) < 0" by simp
  show ?thesis
    using h negative_volatility_raises [OF h, of "3.5" "1.5" "\<lambda>k. 0"] by blast
qed

text \<open>
  C6. Two successive calls with volatility 0 and the same target and shock factor, the
  second on the random source the first one left behind, return the same frame; so does
  a call on any other state of the random source.
\<close>

theorem zero_volatility_repeatable:
  "\<exists>df g1 g2. generate_scenario_data t s 0 g = (Inr df, g1) \<and>
              generate_scenario_data t s 0 g1 = (Inr df, g2) \<and>
              (\<forall>h. fst (generate_scenario_data t s 0 h) = Inr df)"
proof -
  have "values_of t s 0 h = values_of t s 0 g" for h
    by (simp add: values_of_def noise_of_def)
  then show ?thesis by (simp add: generate_returns)
qed

theorem zero_volatility_repeatable_witness:
  "\<exists>df g1 g2. generate_scenario_data 3.5 1.5 0 real = (Inr df, g1) \<and>
              generate_scenario_data 3.5 1.5 0 g1 = (Inr df, g2)"
  using zero_volatility_repeatable [of "3.5" "1.5" real] by blast

text \<open>
  C7. On every frame the generator returns, the dashboard's "current" value is the value
  at index 83, its "pre-shock" value is the value at index 47, whose date is 2023-12-31,
  and its "peak" is the maximum of the values at indices 0 to 83.
\<close>

theorem dashboard_summaries:
  assumes "generate_scenario_data t s v g = (Inr df, g')"
  shows "curr_val df = Inr (Inflation df ! 83) \<and>
         pre_shock_val df = Inr (Inflation df ! 47) \<and>
         Date df ! 47 = \<lparr>year = 2023, month = 12, day = 31\<rparr> \<and>
         peak_val df = Some (Max {Inflation df ! i | i. i \<le> 83})"
proof -
  have df: "df = \<lparr>Date = calendar, Inflation = values_of t s v g\<rparr>"
    using assms by (rule generate_Inr_D)
  have d: "Date df = calendar" and f: "Inflation df = values_of t s v g"
    unfolding df by simp_all
  have l: "length (Inflation df) = 84" unfolding f by (rule length_values_of)
  then have ne: "Inflation df \<noteq> []" by auto
  have "curr_val df = Inr (Inflation df ! 83)"
    unfolding curr_val_def using iloc_last [OF ne] l by simp
  moreover have "pre_shock_val df = Inr (Inflation df ! 47)"
    unfolding pre_shock_val_def using iloc_nonneg [of 47 "Inflation df"] l by simp
  moreover have "Date df ! 47 = \<lparr>year = 2023, month = 12, day = 31\<rparr>"
    unfolding d by (rule calendar_dec_2023)
  moreover have "peak_val df = Some (Max {Inflation df ! i | i. i \<le> 83})"
    unfolding peak_val_def using series_max_Max [OF ne] set_84 [OF l] by simp
  ultimately show ?thesis by blast
qed

theorem dashboard_summaries_witness:
  "\<exists>df g'. generate_scenario_data 3.5 1.5 0.4 real = (Inr df, g') \<and>
      curr_val df = Inr (Inflation df ! 83) \<and>
      pre_shock_val df = Inr (Inflation df ! 47) \<and>
      peak_val df = Some (Max {Inflation df ! i | i. i \<le> 83})"
proof -
  have "\<not> (0.4::real) < 0" by simp
  then have h: "generate_scenario_data 3.5 1.5 0.4 real =
      (Inr \<lparr>Date = calendar, Inflation = values_of 3.5 1.5 0.4 real\<rparr>, (\<lambda>k. real (k + 84)))"
    by (rule generate_returns)
  show ?thesis
    using h dashboard_summaries [OF h] by blast
qed

text \<open>
  C8. With volatility 0, two runs with the same target and any two shock factors, on any
  two states of the random source, return frames with the same dates whose values agree
  at every index below 48; their "pre-shock" values are equal.
\<close>

theorem shock_noninterference:
  assumes "i < 48"
  shows "\<exists>d1 d2. fst (generate_scenario_data t s1 0 g1) = Inr d1 \<and>
                 fst (generate_scenario_data t s2 0 g2) = Inr d2 \<and>
                 Date d1 = Date d2 \<and>
                 Inflation d1 ! i = Inflation d2 ! i \<and>
                 pre_shock_val d1 = pre_shock_val d2"
proof -
  have e: "values_of t s1 0 g1 ! k = values_of t s2 0 g2 ! k" if "k < 48" for k
    using that by (simp add: values_of_nth shock_nth_before)
  have "iloc (values_of t s1 0 g1) 47 = iloc (values_of t s2 0 g2) 47"
    using iloc_nonneg [of 47 "values_of t s1 0 g1"] iloc_nonneg [of 47 "values_of t s2 0 g2"]
      e [of 47]
    by (simp add: length_values_of)
  then show ?thesis
    using e [OF assms] by (simp add: generate_returns pre_shock_val_def)
qed

theorem shock_noninterference_witness:
  "(47::nat) < 48 \<and>
   (\<exists>d1 d2. fst (generate_scenario_data 3.5 0 0 (\<lambda>k. 1)) = Inr d1 \<and>
            fst (generate_scenario_data 3.5 5 0 real) = Inr d2 \<and>
            Inflation d1 ! 47 = Inflation d2 ! 47 \<and>
            pre_shock_val d1 = pre_shock_val d2)"
proof -
  have h: "(47::nat) < 48" by simp
  show ?thesis
    using h shock_noninterference [OF h, of "3.5" 0 "\<lambda>k. 1" 5 real] by blast
qed

text \<open>
  C9. On every frame the generator returns, the rows dated before 2024-01-01 are the
  first 48 rows and the rows dated from 2024-01-01 on are the remaining 36; no date of
  the frame is 2024-01-01, and 2024-01-31, the date of index 48, is the first forecast
  row.
\<close>

theorem horizon_split:
  assumes "generate_scenario_data t s v g = (Inr df, g')"
  shows "history df = \<lparr>Date = take 48 (Date df), Inflation = take 48 (Inflation df)\<rparr> \<and>
         forecast df = \<lparr>Date = drop 48 (Date df), Inflation = drop 48 (Inflation df)\<rparr> \<and>
         length (Date (history df)) = 48 \<and> length (Inflation (history df)) = 48 \<and>
         length (Date (forecast df)) = 36 \<and> length (Inflation (forecast df)) = 36 \<and>
         horizon \<notin> set (Date df) \<and>
         Date df ! 48 = \<lparr>year = 2024, month = 1, day = 31\<rparr> \<and>
         Date (forecast df) ! 0 = \<lparr>year = 2024, month = 1, day = 31\<rparr>"
proof -
  have df: "df = \<lparr>Date = calendar, Inflation = values_of t s v g\<rparr>"
    using assms by (rule generate_Inr_D)
  have l: "length (values_of t s v g) = 84" by (rule length_values_of)
  have h: "history df = \<lparr>Date = take 48 calendar, Inflation = take 48 (values_of t s v g)\<rparr>"
    unfolding df history_def by (rule select_rows_take [OF l])
  have f: "forecast df = \<lparr>Date = drop 48 calendar, Inflation = drop 48 (values_of t s v g)\<rparr>"
    unfolding df forecast_def by (rule select_rows_drop [OF l])
  have j: "drop 48 calendar ! 0 = calendar ! 48"
    by (simp add: length_calendar)
  show ?thesis
    unfolding h f
    using l horizon_not_in_calendar calendar_jan_2024 j
    by (simp add: df length_calendar)
qed

theorem horizon_split_witness:
  "\<exists>df g'. generate_scenario_data 3.5 1.5 0.9 real = (Inr df, g') \<and>
      length (Date (history df)) = 48 \<and> length (Date (forecast df)) = 36 \<and>
      horizon \<notin> set (Date df) \<and>
      Date (forecast df) ! 0 = \<lparr>year = 2024, month = 1, day = 31\<rparr>"
proof -
  have "\<not> (0.9::real) < 0" by simp
  then have h: "generate_scenario_data 3.5 1.5 0.9 real =
      (Inr \<lparr>Date = calendar, Inflation = values_of 3.5 1.5 0.9 real\<rparr>, (\<lambda>k. real (k + 84)))"
    by (rule generate_returns)
  show ?thesis
    using h horizon_split [OF h] by blast
qed

text \<open>
  C10. With volatility 0 the first value of the returned series is 2, for every target and
  shock factor: the trend starts at 2 and seasonality and shock start at 0.
\<close>

theorem first_value_is_two:
  "\<exists>df. fst (generate_scenario_data t s 0 g) = Inr df \<and> Inflation df ! 0 = 2 \<and>
        trend t 84 ! 0 = 2 \<and> seasonality 84 ! 0 = 0 \<and> shock s 84 ! 0 = 0"
  by (simp add: generate_returns values_of_nth trend_nth seasonality_nth shock_nth_before)

theorem first_value_is_two_witness:
  "\<exists>df. fst (generate_scenario_data 7 5 0 (\<lambda>k. 1)) = Inr df \<and> Inflation df ! 0 = 2"
  using first_value_is_two [of 7 5 "\<lambda>k. 1"] by blast

end
